theory Spec2Isabelle
  imports Complex_Main "HOL-Library.Stream"
begin

section \<open>Numbers and the runtime's functions\<close>

text \<open>
  The simulator of \<^verbatim>\<open>flight-service/server.js\<close> computes with JavaScript numbers. They are
  modelled as exact reals: NaN, the infinities and the sign of zero are not part of the
  model, and rounding is modelled in one place only, the two sums that \<^verbatim>\<open>makeFlight\<close>
  floors for the speed and the altitude, where it changes the integer that results (see
  \<open>round_double\<close> below). \<^verbatim>\<open>Math.sin\<close>, \<^verbatim>\<open>Math.cos\<close>, \<^verbatim>\<open>Math.asin\<close> and \<^verbatim>\<open>Math.sqrt\<close> are the real
  functions \<open>sin\<close>, \<open>cos\<close>, \<open>arcsin\<close> and \<open>sqrt\<close>; the values produced by \<^verbatim>\<open>Math.floor\<close>
  and \<^verbatim>\<open>Date.now\<close> are integers. In exact arithmetic the arguments that the
  program gives to \<open>arcsin\<close> (the sine of the projected latitude, the root of a haversine)
  lie in \<open>[-1, 1]\<close> and the argument it gives to \<open>sqrt\<close> (a haversine) is not negative,
  so the NaN that JavaScript returns outside these domains does not arise.
\<close>

text \<open>Truncation towards zero, the quotient that the remainder operator uses.\<close>

definition trunc :: "real \<Rightarrow> int" where
  "trunc x = (if 0 \<le> x then \<lfloor>x\<rfloor> else \<lceil>x\<rceil>)"

text \<open>
  The operator \<^verbatim>\<open>a % n\<close>: the remainder of the truncated division, which has the sign of the
  dividend \<open>a\<close>. (The program only ever divides by 360.)
\<close>

definition js_rem :: "real \<Rightarrow> real \<Rightarrow> real" where
  "js_rem a n = a - n * of_int (trunc (a / n))"

text \<open>
  The result of one arithmetic operation in double precision: the exact result \<open>x\<close>, rounded
  to the nearest multiple of the unit in its binade (53 significant bits, exponents from
  -1022), a tie going to the even multiple. Overflow to infinity (from \<open>2 ^ 1024\<close>) is not
  modelled.
\<close>

definition ties_even :: "real \<Rightarrow> int" where
  "ties_even x =
     (let f = \<lfloor>x\<rfloor>; d = x - of_int f
      in if d < 1 / 2 then f
         else if 1 / 2 < d then f + 1
         else if even f then f else f + 1)"

definition pow2 :: "int \<Rightarrow> real" where
  "pow2 e = (if 0 \<le> e then 2 ^ nat e else 1 / 2 ^ nat (- e))"

definition round_double :: "real \<Rightarrow> real" where
  "round_double x =
     (if x = 0 then 0
      else
        (let e = max (- 1022) \<lfloor>log 2 \<bar>x\<bar>\<rfloor>;
             u = pow2 (e - 52)
         in of_int (ties_even (x / u)) * u))"

text \<open>\<^verbatim>\<open>Math.atan2(y, x)\<close>: the angle of the point \<open>(x, y)\<close>, in \<open>(-pi, pi]\<close>.\<close>

definition atan2 :: "real \<Rightarrow> real \<Rightarrow> real" where
  "atan2 y x =
     (if 0 < x then arctan (y / x)
      else if x < 0 \<and> 0 \<le> y then arctan (y / x) + pi
      else if x < 0 \<and> y < 0 then arctan (y / x) - pi
      else if 0 < y then pi / 2
      else if y < 0 then - (pi / 2)
      else 0)"

text \<open>\<^verbatim>\<open>String(n)\<close> for an integer \<open>n\<close>, and \<^verbatim>\<open>s.padStart(n, c)\<close> for a one-character pad.\<close>

definition digit :: "nat \<Rightarrow> char" where
  "digit d = ''0123456789'' ! d"

fun digits :: "nat \<Rightarrow> string" where
  "digits n =
     (if n < 10 then [digit n]
      else digits (n div 10) @ [digit (n mod 10)])"

declare digits.simps [simp del]

definition String_of :: "int \<Rightarrow> string" where
  "String_of i = (if i < 0 then CHR ''-'' # digits (nat (- i)) else digits (nat i))"

definition padStart :: "string \<Rightarrow> nat \<Rightarrow> char \<Rightarrow> string" where
  "padStart s n c = replicate (n - length s) c @ s"

text \<open>
  \<^verbatim>\<open>Math.random()\<close> is a stream of numbers, read from its head; each call consumes one. The
  runtime promises numbers in \<open>[0, 1)\<close>, which is \<open>rng_ok\<close>.
\<close>

type_synonym rng = "real stream"

definition rng_ok :: "rng \<Rightarrow> bool" where
  "rng_ok g = (\<forall>r \<in> sset g. 0 \<le> r \<and> r < 1)"

section \<open>Data\<close>

text \<open>
  Every object with a \<^verbatim>\<open>lat\<close> and a \<^verbatim>\<open>lon\<close> field is a point; airports and flights extend
  it, so the geodesy functions accept all three, as the source's do.
\<close>

record point =
  lat :: real
  lon :: real

record airport = point +
  iata :: string
  name :: string

text \<open>
  The flight object. Its fields \<^verbatim>\<open>id\<close>, \<^verbatim>\<open>from\<close> and \<^verbatim>\<open>to\<close> are \<open>flight_id\<close>,
  \<open>flight_from\<close> and \<open>flight_to\<close> here.
\<close>

record flight = point +
  flight_id :: string
  callsign :: string
  flight_from :: string
  flight_to :: string
  heading :: real
  speedKts :: int
  altitudeFt :: int
  createdAt :: int
  updatedAt :: int

definition AIRPORTS :: "airport list" where
  "AIRPORTS =
    [\<lparr>lat = 40.6413, lon = -73.7781, iata = ''JFK'', name = ''John F. Kennedy Intl''\<rparr>,
     \<lparr>lat = 33.9416, lon = -118.4085, iata = ''LAX'', name = ''Los Angeles Intl''\<rparr>,
     \<lparr>lat = 41.9742, lon = -87.9073, iata = ''ORD'', name = ''Chicago O'Hare Intl''\<rparr>,
     \<lparr>lat = 32.8998, lon = -97.0403, iata = ''DFW'', name = ''Dallas/Fort Worth Intl''\<rparr>,
     \<lparr>lat = 43.6777, lon = -79.6248, iata = ''YYZ'', name = ''Toronto Pearson''\<rparr>,
     \<lparr>lat = 49.0097, lon = 2.5479, iata = ''CDG'', name = ''Paris Charles de Gaulle''\<rparr>,
     \<lparr>lat = 51.4700, lon = -0.4543, iata = ''LHR'', name = ''London Heathrow''\<rparr>,
     \<lparr>lat = 25.2532, lon = 55.3657, iata = ''DXB'', name = ''Dubai Intl''\<rparr>,
     \<lparr>lat = 35.5494, lon = 139.7798, iata = ''HND'', name = ''Tokyo Haneda''\<rparr>,
     \<lparr>lat = -33.9399, lon = 151.1753, iata = ''SYD'', name = ''Sydney''\<rparr>]"

text \<open>
  \<^verbatim>\<open>AIRPORTS[i]\<close> is \<^verbatim>\<open>undefined\<close> (here \<open>None\<close>) outside the array; reading a field of
  \<^verbatim>\<open>undefined\<close> throws a \<^verbatim>\<open>TypeError\<close>.
\<close>

datatype error = TypeError

definition airport_at :: "int \<Rightarrow> airport option" where
  "airport_at i =
     (if 0 \<le> i \<and> i < int (length AIRPORTS) then Some (AIRPORTS ! nat i) else None)"

section \<open>Geodesy\<close>

definition bearingDegrees :: "'a point_scheme \<Rightarrow> 'b point_scheme \<Rightarrow> real" where
  "bearingDegrees from to =
     (let phi1 = lat from * pi / 180;
          phi2 = lat to * pi / 180;
          dlam = (lon to - lon from) * pi / 180;
          y = sin dlam * cos phi2;
          x = cos phi1 * sin phi2 - sin phi1 * cos phi2 * cos dlam;
          theta = atan2 y x;
          deg = js_rem (theta * 180 / pi + 360) 360
      in deg)"

definition move :: "'a point_scheme \<Rightarrow> real \<Rightarrow> real \<Rightarrow> point" where
  "move from bearingDeg distKm =
     (let R = 6371;
          delta = distKm / R;
          theta = bearingDeg * pi / 180;
          phi1 = lat from * pi / 180;
          lam1 = lon from * pi / 180;
          sinphi1 = sin phi1; cosphi1 = cos phi1;
          sindelta = sin delta; cosdelta = cos delta;
          sintheta = sin theta; costheta = cos theta;
          sinphi2 = sinphi1 * cosdelta + cosphi1 * sindelta * costheta;
          phi2 = arcsin sinphi2;
          y = sintheta * sindelta * cosphi1;
          x = cosdelta - sinphi1 * sinphi2;
          lam2 = lam1 + atan2 y x
      in \<lparr>lat = phi2 * 180 / pi, lon = js_rem (lam2 * 180 / pi + 540) 360 - 180\<rparr>)"

definition distanceKm :: "'a point_scheme \<Rightarrow> 'b point_scheme \<Rightarrow> real" where
  "distanceKm a b =
     (let R = 6371;
          phi1 = lat a * pi / 180; phi2 = lat b * pi / 180;
          dphi = (lat b - lat a) * pi / 180;
          dlam = (lon b - lon a) * pi / 180;
          s = (sin (dphi / 2))\<^sup>2 + cos phi1 * cos phi2 * (sin (dlam / 2))\<^sup>2
      in 2 * R * arcsin (sqrt s))"

section \<open>Flight generator\<close>

text \<open>
  The loop of \<^verbatim>\<open>pickDifferentAirports\<close> draws a new destination for as long as its code is
  the origin's. It need not end (a random source may repeat the origin's index for ever), so
  it is a partial function: \<open>None\<close> is the run that never returns. \<open>Some (Inl TypeError)\<close> is
  the run that reads \<^verbatim>\<open>.iata\<close> of an index outside the catalog.
\<close>

partial_function (option) pick_while ::
  "airport option \<Rightarrow> airport option \<Rightarrow> rng \<Rightarrow> (error + airport \<times> airport \<times> rng) option" where
  "pick_while from to g =
     (case to of
        None \<Rightarrow> Some (Inl TypeError)
      | Some t \<Rightarrow>
          (case from of
             None \<Rightarrow> Some (Inl TypeError)
           | Some fr \<Rightarrow>
               if iata t = iata fr
               then pick_while from (airport_at \<lfloor>shd g * real (length AIRPORTS)\<rfloor>) (stl g)
               else Some (Inr (fr, t, g))))"

definition pickDifferentAirports :: "rng \<Rightarrow> (error + airport \<times> airport \<times> rng) option" where
  "pickDifferentAirports g =
     (let from = airport_at \<lfloor>shd g * real (length AIRPORTS)\<rfloor>; g1 = stl g;
          to = airport_at \<lfloor>shd g1 * real (length AIRPORTS)\<rfloor>; g2 = stl g1
      in pick_while from to g2)"

text \<open>
  \<^verbatim>\<open>makeFlight(id)\<close>, with the clock's reading \<open>now\<close> and the random source as arguments.
  The product and the sum under each of \<^verbatim>\<open>Math.floor(380 + Math.random()*180)\<close> and
  \<^verbatim>\<open>Math.floor(28000 + Math.random()*12000)\<close> are rounded as the double operations are.
\<close>

definition makeFlight :: "string \<Rightarrow> int \<Rightarrow> rng \<Rightarrow> (error + flight \<times> rng) option" where
  "makeFlight ident now g =
     (case pickDifferentAirports g of
        None \<Rightarrow> None
      | Some (Inl e) \<Rightarrow> Some (Inl e)
      | Some (Inr (from, to, g1)) \<Rightarrow>
          (let hdg = bearingDegrees from to;
               speed = \<lfloor>round_double (380 + round_double (shd g1 * 180))\<rfloor>; g2 = stl g1;
               altitude = \<lfloor>round_double (28000 + round_double (shd g2 * 12000))\<rfloor>;
               g3 = stl g2;
               cs = ''CC'' @ padStart (String_of \<lfloor>shd g3 * 9999\<rfloor>) 4 CHR ''0''; g4 = stl g3;
               start = move \<lparr>lat = lat from, lon = lon from\<rparr> hdg (shd g4 * 50 + 10);
               g5 = stl g4
           in Some (Inr
                (\<lparr>lat = lat start, lon = lon start,
                  flight_id = ident, callsign = cs,
                  flight_from = iata from, flight_to = iata to,
                  heading = hdg, speedKts = speed, altitudeFt = altitude,
                  createdAt = now, updatedAt = now\<rparr>, g5))))"

section \<open>Tick engine\<close>

text \<open>
  \<^verbatim>\<open>tick(f)\<close> mutates the flight object and returns it; the model returns the new record. Its
  body is a guard and three blocks, one definition each: the elapsed time and the guard
  (\<open>dtHours\<close>), the projection of the position (\<open>advance\<close>), the arrival test
  (\<open>near_destination\<close>) with the re-route (\<open>reroute\<close>), and the heading's wander (\<open>wander\<close>).
\<close>

definition dtHours :: "flight \<Rightarrow> int \<Rightarrow> real" where
  "dtHours f now = real_of_int (max 0 (now - updatedAt f)) / 3600000"

definition advance :: "flight \<Rightarrow> int \<Rightarrow> flight" where
  "advance f now =
     (let kmPerHr = real_of_int (speedKts f) * 1.852;
          stepKm = kmPerHr * dtHours f now;
          next = move \<lparr>lat = lat f, lon = lon f\<rparr> (heading f) stepKm
      in f\<lparr>lat := lat next, lon := lon next, updatedAt := now\<rparr>)"

definition near_destination :: "flight \<Rightarrow> bool" where
  "near_destination f =
     (case find (\<lambda>a. iata a = flight_to f) AIRPORTS of
        None \<Rightarrow> False
      | Some dest \<Rightarrow> distanceKm \<lparr>lat = lat f, lon = lon f\<rparr> dest < 30)"

definition reroute :: "flight \<Rightarrow> rng \<Rightarrow> (error + flight \<times> rng) option" where
  "reroute f g =
     (case pickDifferentAirports g of
        None \<Rightarrow> None
      | Some (Inl e) \<Rightarrow> Some (Inl e)
      | Some (Inr (from, to, g')) \<Rightarrow>
          Some (Inr (f\<lparr>flight_from := iata from, flight_to := iata to,
                       heading := bearingDegrees from to\<rparr>, g')))"

definition wander :: "flight \<Rightarrow> rng \<Rightarrow> flight \<times> rng" where
  "wander f g = (f\<lparr>heading := js_rem (heading f + (shd g * 2 - 1) * 2) 360\<rparr>, stl g)"

definition tick :: "flight \<Rightarrow> int \<Rightarrow> rng \<Rightarrow> (error + flight \<times> rng) option" where
  "tick f now g =
     (if dtHours f now \<le> 0 then Some (Inr (f, g))
      else
        (let f1 = advance f now
         in case (if near_destination f1 then reroute f1 g else Some (Inr (f1, g))) of
              None \<Rightarrow> None
            | Some (Inl e) \<Rightarrow> Some (Inl e)
            | Some (Inr (f2, g2)) \<Rightarrow> Some (Inr (wander f2 g2))))"

text \<open>
  The flights that the service can hold: those that \<open>makeFlight\<close> returns, and those that
  \<open>tick\<close> returns for a flight it can hold.
\<close>

inductive reachable :: "flight \<Rightarrow> bool" where
  generated: "makeFlight ident now g = Some (Inr (f, g')) \<Longrightarrow> reachable f"
| ticked: "reachable f \<Longrightarrow> tick f now g = Some (Inr (f', g')) \<Longrightarrow> reachable f'"

section \<open>Sample data\<close>

text \<open>
  Two catalog entries by name, and the flights the examples below run: \<open>northbound\<close> flies
  due north on the meridian of JFK, ten degrees of latitude south of it; \<open>arriving\<close> is the
  same flight a fifth of a degree (some 22 km) south of JFK; \<open>stray\<close> is \<open>northbound\<close>
  with a destination code that the catalog does not hold; \<open>newborn\<close> is the flight that
  \<open>makeFlight\<close> builds from the random numbers 0.15, 0.05, 0.5, 0.5, ...
\<close>

definition JFK :: airport where "JFK = AIRPORTS ! 0"

definition LAX :: airport where "LAX = AIRPORTS ! 1"

definition northbound :: flight where
  "northbound =
     \<lparr>lat = 30.6413, lon = -73.7781,
      flight_id = ''V1StGXR8'', callsign = ''CC0042'',
      flight_from = ''LAX'', flight_to = ''JFK'',
      heading = 0, speedKts = 480, altitudeFt = 35000,
      createdAt = 0, updatedAt = 0\<rparr>"

definition arriving :: flight where
  "arriving = northbound\<lparr>lat := 40.4413\<rparr>"

definition stray :: flight where
  "stray = northbound\<lparr>flight_to := ''XXX''\<rparr>"

definition newborn :: flight where
  "newborn =
     \<lparr>lat = lat (move \<lparr>lat = lat LAX, lon = lon LAX\<rparr> (bearingDegrees LAX JFK) 35),
      lon = lon (move \<lparr>lat = lat LAX, lon = lon LAX\<rparr> (bearingDegrees LAX JFK) 35),
      flight_id = ''V1StGXR8'', callsign = ''CC4999'',
      flight_from = ''LAX'', flight_to = ''JFK'',
      heading = bearingDegrees LAX JFK, speedKts = 470, altitudeFt = 34000,
      createdAt = 0, updatedAt = 0\<rparr>"

section \<open>The remainder and the arc tangent\<close>

text \<open>
  The remainder by a positive \<open>n\<close> lies in \<open>[0, n)\<close> for a dividend that is not negative
  and in \<open>(-n, 0]\<close> for a negative one; \<open>atan2\<close> lies in \<open>(-pi, pi]\<close>.
\<close>

lemma js_rem_nonneg:
  assumes "0 \<le> a" "0 < n"
  shows "0 \<le> js_rem a n \<and> js_rem a n < n"
proof -
  have q: "0 \<le> a / n" using assms by simp
  have "real_of_int \<lfloor>a / n\<rfloor> \<le> a / n" by (rule of_int_floor_le)
  then have lo: "real_of_int \<lfloor>a / n\<rfloor> * n \<le> a"
    using assms(2) by (simp only: pos_le_divide_eq)
  have "a / n < real_of_int \<lfloor>a / n\<rfloor> + 1" by linarith
  then have "a < (real_of_int \<lfloor>a / n\<rfloor> + 1) * n"
    using assms(2) by (simp only: pos_divide_less_eq)
  then have hi: "a < real_of_int \<lfloor>a / n\<rfloor> * n + n"
    by (simp only: distrib_right mult_1)
  have "js_rem a n = a - real_of_int \<lfloor>a / n\<rfloor> * n"
    using q by (simp add: js_rem_def trunc_def mult.commute)
  with lo hi show ?thesis by linarith
qed

lemma js_rem_neg:
  assumes "a < 0" "0 < n"
  shows "- n < js_rem a n \<and> js_rem a n \<le> 0"
proof -
  have q: "\<not> 0 \<le> a / n" using assms by (simp add: divide_neg_pos not_le)
  have "a / n \<le> real_of_int \<lceil>a / n\<rceil>" by (rule le_of_int_ceiling)
  then have hi: "a \<le> real_of_int \<lceil>a / n\<rceil> * n"
    using assms(2) by (simp only: pos_divide_le_eq)
  have "real_of_int \<lceil>a / n\<rceil> - 1 < a / n" by linarith
  then have "(real_of_int \<lceil>a / n\<rceil> - 1) * n < a"
    using assms(2) by (simp only: pos_less_divide_eq)
  then have lo: "real_of_int \<lceil>a / n\<rceil> * n - n < a"
    by (simp only: left_diff_distrib mult_1)
  have "js_rem a n = a - real_of_int \<lceil>a / n\<rceil> * n"
    using q by (simp add: js_rem_def trunc_def mult.commute)
  with lo hi show ?thesis by linarith
qed

lemma js_rem_small: "0 \<le> a \<Longrightarrow> a < 360 \<Longrightarrow> js_rem a 360 = a"
proof -
  assume a: "0 \<le> a" "a < 360"
  then have "\<lfloor>a / 360\<rfloor> = 0" by (intro floor_unique) simp_all
  with a show ?thesis by (simp add: js_rem_def trunc_def)
qed

lemma js_rem_shift: "360 \<le> a \<Longrightarrow> a < 720 \<Longrightarrow> js_rem a 360 = a - 360"
proof -
  assume a: "360 \<le> a" "a < 720"
  then have "\<lfloor>a / 360\<rfloor> = 1" by (intro floor_unique) simp_all
  with a show ?thesis by (simp add: js_rem_def trunc_def)
qed

lemma js_rem_negative: "- 360 < a \<Longrightarrow> a < 0 \<Longrightarrow> js_rem a 360 = a"
proof -
  assume a: "- 360 < a" "a < 0"
  then have "\<lceil>a / 360\<rceil> = 0" by (intro ceiling_unique) simp_all
  with a show ?thesis by (simp add: js_rem_def trunc_def)
qed

lemma atan2_bounds: "- pi < atan2 y x \<and> atan2 y x \<le> pi"
proof -
  have b: "- (pi / 2) < arctan (y / x)" "arctan (y / x) < pi / 2"
    using arctan_bounded [of "y / x"] by simp_all
  have p: "0 < pi" by simp
  consider (pos) "0 < x" | (negpos) "x < 0" "0 \<le> y" | (negneg) "x < 0" "y < 0" | (zero) "x = 0"
    by linarith
  then show ?thesis
  proof cases
    case pos
    then have "atan2 y x = arctan (y / x)" by (simp add: atan2_def)
    with b p show ?thesis by linarith
  next
    case negpos
    then have "y / x \<le> 0" by (simp add: divide_nonneg_neg)
    then have "arctan (y / x) \<le> 0" by (simp add: arctan_le_zero_iff)
    moreover from negpos have "atan2 y x = arctan (y / x) + pi" by (simp add: atan2_def)
    ultimately show ?thesis using b p by linarith
  next
    case negneg
    then have "0 < y / x" by (simp add: divide_neg_neg)
    then have "0 < arctan (y / x)" by (simp add: zero_less_arctan_iff)
    moreover from negneg have "atan2 y x = arctan (y / x) - pi" by (simp add: atan2_def)
    ultimately show ?thesis using b p by linarith
  next
    case zero
    then have "atan2 y x = pi / 2 \<or> atan2 y x = - (pi / 2) \<or> atan2 y x = 0"
      by (simp add: atan2_def)
    with p show ?thesis by linarith
  qed
qed

lemma atan2_zero_pos: "0 < x \<Longrightarrow> atan2 0 x = 0"
  by (simp add: atan2_def)

lemma atan2_pos:
  assumes "0 < y"
  shows "0 < atan2 y x \<and> atan2 y x < pi"
proof -
  have b: "- (pi / 2) < arctan (y / x)" "arctan (y / x) < pi / 2"
    using arctan_bounded [of "y / x"] by simp_all
  have p: "0 < pi" by simp
  consider (pos) "0 < x" | (neg) "x < 0" | (zero) "x = 0"
    by linarith
  then show ?thesis
  proof cases
    case pos
    with assms have "0 < y / x" by simp
    then have "0 < arctan (y / x)" by (simp add: zero_less_arctan_iff)
    moreover from pos have "atan2 y x = arctan (y / x)" by (simp add: atan2_def)
    ultimately show ?thesis using b p by linarith
  next
    case neg
    with assms have "y / x < 0" by (simp add: divide_pos_neg)
    then have "arctan (y / x) < 0" by (simp add: arctan_less_zero_iff)
    moreover from neg assms have "atan2 y x = arctan (y / x) + pi" by (simp add: atan2_def)
    ultimately show ?thesis using b p by linarith
  next
    case zero
    with assms have "atan2 y x = pi / 2" by (simp add: atan2_def)
    with p show ?thesis by linarith
  qed
qed

section \<open>Rounding to double precision\<close>

text \<open>
  Inside a binade the rounding is the nearest multiple of the unit, ties to even. It is
  monotone and leaves integers below \<open>2 ^ 53\<close> alone, so a value between two such integers
  stays between them. Hence the floor of a rounded sum \<open>base + r * n\<close> with \<open>r\<close> in
  \<open>[0, 1)\<close> lies in the closed range from \<open>base\<close> to \<open>base + n\<close>; in exact arithmetic it
  lies below \<open>base + n\<close>.
\<close>

lemma pow2_pos: "0 < pow2 e"
  by (simp add: pow2_def)

lemma pow2_powr: "pow2 e = 2 powr real_of_int e"
  by (simp add: pow2_def powr_int)

lemma round_double_in_binade:
  assumes "pow2 e \<le> \<bar>x\<bar>" "\<bar>x\<bar> < pow2 (e + 1)" "- 1022 \<le> e"
  shows "round_double x = of_int (ties_even (x / pow2 (e - 52))) * pow2 (e - 52)"
proof -
  from assms(1) pow2_pos [of e] have nz: "x \<noteq> 0" and pos: "0 < \<bar>x\<bar>" by auto
  have "2 powr real_of_int e \<le> \<bar>x\<bar> \<and> \<bar>x\<bar> < 2 powr (real_of_int e + 1)"
    using assms(1,2) by (simp add: pow2_powr)
  then have "\<lfloor>log 2 \<bar>x\<bar>\<rfloor> = e"
    using pos by (simp add: floor_log_eq_powr_iff)
  with nz assms(3) show ?thesis
    by (simp add: round_double_def Let_def max_def)
qed

lemma ties_even_of_int: "ties_even (of_int n) = n"
  by (simp add: ties_even_def)

lemma ties_even_bounds: "\<lfloor>x\<rfloor> \<le> ties_even x \<and> ties_even x \<le> \<lfloor>x\<rfloor> + 1"
  by (simp add: ties_even_def Let_def)

lemma ties_even_mono:
  assumes "x \<le> y"
  shows "ties_even x \<le> ties_even y"
proof (cases "\<lfloor>x\<rfloor> < \<lfloor>y\<rfloor>")
  case True
  with ties_even_bounds [of x] ties_even_bounds [of y] show ?thesis by linarith
next
  case False
  with assms have eq: "\<lfloor>x\<rfloor> = \<lfloor>y\<rfloor>" by (simp add: floor_mono order_antisym not_less)
  with assms have "x - of_int \<lfloor>y\<rfloor> \<le> y - of_int \<lfloor>y\<rfloor>" by simp
  then show ?thesis
    by (auto simp: ties_even_def Let_def eq)
qed

lemma round_double_between:
  assumes "0 < x" and "of_int lo \<le> x" and "x \<le> of_int hi" and "0 \<le> lo" and "x < 2 ^ 53"
  shows "of_int lo \<le> round_double x \<and> round_double x \<le> of_int hi"
proof -
  define e where "e = max (- 1022) \<lfloor>log 2 \<bar>x\<bar>\<rfloor>"
  have "\<lfloor>log 2 x\<rfloor> \<le> 52"
  proof (rule ccontr)
    assume "\<not> \<lfloor>log 2 x\<rfloor> \<le> 52"
    then have "53 \<le> \<lfloor>log 2 x\<rfloor>" by simp
    then have "53 \<le> log 2 x" by (simp add: le_floor_iff)
    then have "2 powr 53 \<le> x" using assms(1) by (simp add: le_log_iff)
    then have "2 ^ 53 \<le> x" by simp
    with assms(5) show False by linarith
  qed
  moreover have "\<bar>x\<bar> = x" using assms(1) by simp
  ultimately have e: "e \<le> 52" unfolding e_def by simp
  define k :: int where "k = 2 ^ nat (52 - e)"
  have kpos: "0 < real_of_int k" by (simp add: k_def)
  have u: "pow2 (e - 52) = 1 / of_int k"
  proof (cases "e = 52")
    case True
    then show ?thesis by (simp add: pow2_def k_def)
  next
    case False
    with e have "\<not> 0 \<le> e - 52" "- (e - 52) = 52 - e" by simp_all
    then show ?thesis by (simp add: pow2_def k_def)
  qed
  have "round_double x = of_int (ties_even (x / pow2 (e - 52))) * pow2 (e - 52)"
    using assms(1) unfolding round_double_def Let_def e_def by simp
  then have rd: "round_double x = of_int (ties_even (x * of_int k)) / of_int k"
    unfolding u by simp
  have "of_int (lo * k) \<le> x * of_int k"
    using assms(2) kpos by (simp add: mult_right_mono)
  from ties_even_mono [OF this] have "lo * k \<le> ties_even (x * of_int k)"
    by (simp only: ties_even_of_int)
  then have "real_of_int (lo * k) \<le> real_of_int (ties_even (x * of_int k))"
    by (simp only: of_int_le_iff)
  then have "real_of_int lo * real_of_int k \<le> real_of_int (ties_even (x * of_int k))"
    by (simp only: of_int_mult)
  then have l: "of_int lo \<le> of_int (ties_even (x * of_int k)) / real_of_int k"
    using kpos by (simp only: pos_le_divide_eq)
  have "x * of_int k \<le> of_int (hi * k)"
    using assms(3) kpos by (simp add: mult_right_mono)
  from ties_even_mono [OF this] have "ties_even (x * of_int k) \<le> hi * k"
    by (simp only: ties_even_of_int)
  then have "real_of_int (ties_even (x * of_int k)) \<le> real_of_int (hi * k)"
    by (simp only: of_int_le_iff)
  then have "real_of_int (ties_even (x * of_int k)) \<le> real_of_int hi * real_of_int k"
    by (simp only: of_int_mult)
  then have h: "of_int (ties_even (x * of_int k)) / real_of_int k \<le> of_int hi"
    using kpos by (simp only: pos_divide_le_eq)
  from l h show ?thesis by (simp only: rd) 
qed

lemma round_double_between0:
  assumes "0 \<le> x" and "x \<le> of_int hi" and "x < 2 ^ 53"
  shows "0 \<le> round_double x \<and> round_double x \<le> of_int hi"
proof (cases "x = 0")
  case True
  with assms(2) show ?thesis by (simp add: round_double_def)
next
  case False
  with assms(1) have "0 < x" by simp
  from round_double_between [OF this, of 0 hi] assms(1,2,3) show ?thesis by simp
qed

lemma floor_rounded_sum:
  assumes "0 \<le> r" "r < 1" and "0 < base" "0 < n" "real_of_int (base + n) < 2 ^ 53"
  shows "base \<le> \<lfloor>round_double (of_int base + round_double (r * of_int n))\<rfloor>
    \<and> \<lfloor>round_double (of_int base + round_double (r * of_int n))\<rfloor> \<le> base + n"
proof -
  let ?a = "round_double (r * of_int n)"
  let ?b = "real_of_int base + ?a"
  have n: "0 < real_of_int n" and b: "0 < real_of_int base" using assms(3,4) by simp_all
  have big: "real_of_int base + real_of_int n < 2 ^ 53" using assms(5) by simp
  have p0: "0 \<le> r * of_int n" using assms(1) n by simp
  have "r * real_of_int n \<le> 1 * real_of_int n"
    using assms(2) n by (intro mult_right_mono) simp_all
  then have p1: "r * of_int n \<le> of_int n" by simp
  from p1 b big have p2: "r * real_of_int n < 2 ^ 53" by linarith
  from round_double_between0 [OF p0 p1 p2] have a: "0 \<le> ?a" "?a \<le> of_int n" by simp_all
  have q0: "0 < ?b" using a(1) b by linarith
  have q1: "of_int base \<le> ?b" using a(1) by linarith
  have q2: "?b \<le> of_int (base + n)" using a(2) by simp
  have q3: "0 \<le> base" using assms(3) by simp
  have q4: "?b < 2 ^ 53" using a(2) big by linarith
  from round_double_between [OF q0 q1 q2 q3 q4]
  have lo: "of_int base \<le> round_double ?b" and hi: "round_double ?b \<le> of_int (base + n)"
    by simp_all
  from lo have "base \<le> \<lfloor>round_double ?b\<rfloor>" by (simp only: le_floor_iff)
  moreover from hi have "round_double ?b < of_int (base + n) + 1" by linarith
  then have "\<lfloor>round_double ?b\<rfloor> \<le> base + n" by (simp only: floor_le_iff)
  ultimately show ?thesis by simp
qed

lemma exact_floor_sum:
  assumes "0 \<le> r" "r < 1" and "0 < n"
  shows "base \<le> \<lfloor>of_int base + (r::real) * of_int n\<rfloor>
    \<and> \<lfloor>of_int base + r * of_int n\<rfloor> < base + n"
proof -
  have n: "0 < real_of_int n" using assms(3) by simp
  have "0 \<le> r * of_int n" using assms(1) n by simp
  moreover have "r * real_of_int n < 1 * real_of_int n"
    using assms(2) n by (intro mult_strict_right_mono) simp_all
  ultimately show ?thesis
    by (simp add: le_floor_iff floor_less_iff)
qed

text \<open>
  The values that the examples need. The last four are the operations of \<open>makeFlight\<close> at
  the random number \<open>1 - 2 ^ -52\<close>.
\<close>

lemma round_double_90: "round_double 90 = 90"
  using round_double_in_binade [of 6 90] by (simp add: pow2_def ties_even_def)

lemma round_double_470: "round_double 470 = 470"
  using round_double_in_binade [of 8 470] by (simp add: pow2_def ties_even_def)

lemma round_double_6000: "round_double 6000 = 6000"
  using round_double_in_binade [of 12 6000] by (simp add: pow2_def ties_even_def)

lemma round_double_34000: "round_double 34000 = 34000"
  using round_double_in_binade [of 15 34000] by (simp add: pow2_def ties_even_def)

lemma round_double_top_180: "round_double ((1 - 1 / 2 ^ 52) * 180) = 180 - 1 / 2 ^ 45"
  using round_double_in_binade [of 7 "(1 - 1 / 2 ^ 52) * 180"]
  by (simp add: pow2_def ties_even_def)

lemma round_double_top_560: "round_double (380 + (180 - 1 / 2 ^ 45)) = 560"
  using round_double_in_binade [of 9 "380 + (180 - 1 / 2 ^ 45)"]
  by (simp add: pow2_def ties_even_def)

lemma round_double_top_12000: "round_double ((1 - 1 / 2 ^ 52) * 12000) = 12000 - 1 / 2 ^ 39"
  using round_double_in_binade [of 13 "(1 - 1 / 2 ^ 52) * 12000"]
  by (simp add: pow2_def ties_even_def)

lemma round_double_top_40000: "round_double (28000 + (12000 - 1 / 2 ^ 39)) = 40000"
  using round_double_in_binade [of 15 "28000 + (12000 - 1 / 2 ^ 39)"]
  by (simp add: pow2_def ties_even_def)

section \<open>Bearing, projection and distance\<close>

text \<open>
  The bearing is always in \<open>[0, 360)\<close>. On a meridian everything is explicit: the bearing
  to a point further north is 0, a move due north adds the angle of the distance to the
  latitude and keeps the longitude, and the distance is the radius times the difference of
  the latitudes in radians.
\<close>

lemma move_lon_eq:
  "\<exists>y x. lon (move p b d) = js_rem ((lon p * pi / 180 + atan2 y x) * 180 / pi + 540) 360 - 180"
  unfolding move_def Let_def by (intro exI) (simp only: point.simps)

lemma bearing_range: "0 \<le> bearingDegrees a b \<and> bearingDegrees a b < 360"
proof -
  obtain y x where b: "bearingDegrees a b = js_rem (atan2 y x * 180 / pi + 360) 360"
    by (simp add: bearingDegrees_def Let_def)
  have "- 180 < atan2 y x * 180 / pi"
    using atan2_bounds [of y x] by (simp add: field_simps)
  then have "0 \<le> atan2 y x * 180 / pi + 360" by linarith
  from js_rem_nonneg [OF this, of 360] b show ?thesis by simp
qed

lemma bearing_due_north:
  assumes "lon a = lon b" "lat a < lat b" "lat b - lat a < 180"
  shows "bearingDegrees a b = 0"
proof -
  let ?p1 = "lat a * pi / 180" and ?p2 = "lat b * pi / 180"
  have d: "?p2 - ?p1 = (lat b - lat a) * pi / 180"
    by (simp add: left_diff_distrib diff_divide_distrib)
  have "0 < (lat b - lat a) * pi / 180" using assms(2) by simp
  moreover have "(lat b - lat a) * pi / 180 < pi" using assms(3) by simp
  ultimately have "0 < sin (?p2 - ?p1)"
    unfolding d by (intro sin_gt_zero)
  then have x: "0 < cos ?p1 * sin ?p2 - sin ?p1 * cos ?p2"
    by (simp add: sin_diff mult.commute)
  have "bearingDegrees a b = js_rem (atan2 0 (cos ?p1 * sin ?p2 - sin ?p1 * cos ?p2) * 180 / pi + 360) 360"
    using assms(1) by (simp add: bearingDegrees_def Let_def)
  also have "\<dots> = js_rem 360 360" using x by (simp add: atan2_zero_pos)
  also have "\<dots> = 0" using js_rem_shift [of 360] by simp
  finally show ?thesis .
qed

lemma bearing_eastward:
  assumes "lon a < lon b" "lon b - lon a < 180" "- 90 < lat b" "lat b < 90"
  shows "0 < bearingDegrees a b \<and> bearingDegrees a b < 180"
proof -
  let ?dl = "(lon b - lon a) * pi / 180" and ?p2 = "lat b * pi / 180"
  have "0 < ?dl" using assms(1) by simp
  moreover have "?dl < pi" using assms(2) by simp
  ultimately have s: "0 < sin ?dl" by (intro sin_gt_zero)
  have "- 90 * pi < lat b * pi" using assms(3) by (intro mult_strict_right_mono) simp_all
  then have "- (pi / 2) < ?p2" by simp
  moreover have "?p2 < pi / 2" using assms(4) by simp
  ultimately have c: "0 < cos ?p2" by (intro cos_gt_zero_pi)
  from s c have y: "0 < sin ?dl * cos ?p2" by simp
  obtain x where b: "bearingDegrees a b = js_rem (atan2 (sin ?dl * cos ?p2) x * 180 / pi + 360) 360"
    by (simp add: bearingDegrees_def Let_def)
  let ?t = "atan2 (sin ?dl * cos ?p2) x * 180 / pi"
  from atan2_pos [OF y, of x] have t: "0 < ?t" "?t < 180"
    by (simp_all add: field_simps)
  then have "js_rem (?t + 360) 360 = ?t + 360 - 360"
    by (intro js_rem_shift) linarith+
  with b t show ?thesis by simp
qed

lemma move_north:
  assumes "- 90 < lat p" "0 \<le> d" "lat p * pi / 180 + d / 6371 < pi / 2"
    and "- 180 \<le> lon p" "lon p < 180"
  shows "move p 0 d = \<lparr>lat = lat p + d / 6371 * 180 / pi, lon = lon p\<rparr>"
proof -
  let ?p1 = "lat p * pi / 180" and ?dl = "d / 6371"
  have "- 90 * pi < lat p * pi" using assms(1) by (intro mult_strict_right_mono) simp_all
  then have lo: "- (pi / 2) < ?p1" by simp
  have dl: "0 \<le> ?dl" using assms(2) by simp
  have s2: "sin ?p1 * cos ?dl + cos ?p1 * sin ?dl = sin (?p1 + ?dl)"
    by (simp add: sin_add)
  have as: "arcsin (sin (?p1 + ?dl)) = ?p1 + ?dl"
    using lo dl assms(3) by (intro arcsin_sin) linarith+
  have "cos ?dl = cos ((?p1 + ?dl) - ?p1)" by simp
  also have "\<dots> = cos (?p1 + ?dl) * cos ?p1 + sin (?p1 + ?dl) * sin ?p1"
    by (rule cos_diff)
  finally have x: "cos ?dl - sin ?p1 * sin (?p1 + ?dl) = cos (?p1 + ?dl) * cos ?p1"
    by (simp add: mult.commute)
  have "0 < cos (?p1 + ?dl)" using lo dl assms(3) by (intro cos_gt_zero_pi) linarith+
  moreover have "0 < cos ?p1" using lo dl assms(3) by (intro cos_gt_zero_pi) linarith+
  ultimately have xpos: "0 < cos ?dl - sin ?p1 * sin (?p1 + ?dl)"
    unfolding x by simp
  have "360 \<le> lon p + 540" "lon p + 540 < 720" using assms(4,5) by linarith+
  then have l: "js_rem (lon p + 540) 360 = lon p + 540 - 360" by (rule js_rem_shift)
  have "move p 0 d =
      \<lparr>lat = arcsin (sin ?p1 * cos ?dl + cos ?p1 * sin ?dl) * 180 / pi,
       lon = js_rem ((lon p * pi / 180
               + atan2 0 (cos ?dl - sin ?p1 * (sin ?p1 * cos ?dl + cos ?p1 * sin ?dl))) * 180 / pi
               + 540) 360 - 180\<rparr>"
    by (simp add: move_def Let_def)
  also have "\<dots> = \<lparr>lat = (?p1 + ?dl) * 180 / pi, lon = js_rem (lon p + 540) 360 - 180\<rparr>"
    unfolding s2 as using xpos by (simp add: atan2_zero_pos)
  also have "\<dots> = \<lparr>lat = lat p + ?dl * 180 / pi, lon = lon p\<rparr>"
    unfolding l by (simp add: field_simps)
  finally show ?thesis .
qed

lemma distance_meridian:
  assumes "lon a = lon b" "\<bar>lat b - lat a\<bar> \<le> 180"
  shows "distanceKm a b = 6371 * (\<bar>lat b - lat a\<bar> * pi / 180)"
proof -
  let ?h = "(lat b - lat a) * pi / 180 / 2"
  have h: "\<bar>?h\<bar> \<le> pi / 2"
  proof -
    have "\<bar>?h\<bar> = \<bar>lat b - lat a\<bar> * pi / 360" by (simp add: abs_mult)
    also have "\<dots> \<le> 180 * pi / 360" using assms(2) by (intro divide_right_mono mult_right_mono) simp_all
    finally show ?thesis by simp
  qed
  have "distanceKm a b = 2 * 6371 * arcsin (sqrt ((sin ?h)\<^sup>2))"
    using assms(1) by (simp add: distanceKm_def Let_def)
  also have "sqrt ((sin ?h)\<^sup>2) = \<bar>sin ?h\<bar>" by (rule real_sqrt_abs)
  also have "\<bar>sin ?h\<bar> = sin \<bar>?h\<bar>"
  proof (cases "0 \<le> ?h")
    case True
    moreover from True h have "?h \<le> pi" by linarith
    ultimately have "0 \<le> sin ?h" by (intro sin_ge_zero)
    with True show ?thesis by (simp only: abs_of_nonneg)
  next
    case False
    then have neg: "?h < 0" by simp
    with h have "0 \<le> - ?h" "- ?h \<le> pi" by linarith+
    then have "0 \<le> sin (- ?h)" by (intro sin_ge_zero)
    then have "sin ?h \<le> 0" by simp
    with neg show ?thesis by (simp only: abs_of_nonpos abs_of_neg sin_minus)
  qed
  also have "arcsin (sin \<bar>?h\<bar>) = \<bar>?h\<bar>"
    using h by (intro arcsin_sin) linarith+
  also have "2 * 6371 * \<bar>?h\<bar> = 6371 * (\<bar>lat b - lat a\<bar> * pi / 180)"
    by (simp add: abs_mult)
  finally show ?thesis .
qed

text \<open>
  The remainder only normalizes a dividend that is not negative: from a longitude far
  below -360 the result of \<open>move\<close> stays below -180.
\<close>

lemma move_lon_far_west: "lon (move \<lparr>lat = 0, lon = - 1000\<rparr> 0 0) = - 280"
proof -
  have "js_rem (- 460) 360 = - 100" by (simp add: js_rem_def trunc_def)
  moreover have "atan2 0 1 = 0" by (simp add: atan2_def)
  ultimately show ?thesis
    unfolding move_def Let_def by simp
qed

section \<open>The airport pair and the generated flight\<close>

text \<open>
  Whenever the loop returns a pair, the first airport is the origin it started with, the
  second has another code, and the rest of the random stream is a suffix of the stream it
  was given.
\<close>

lemma pick_while_result:
  assumes "pick_while src dst g = Some y"
  shows "case y of Inl e \<Rightarrow> True
         | Inr (fr, t, g') \<Rightarrow> src = Some fr \<and> iata t \<noteq> iata fr \<and> sset g' \<subseteq> sset g"
proof -
  let ?P = "\<lambda>(s :: airport option) (d :: airport option) (h :: rng)
       (z :: error + airport \<times> airport \<times> rng).
     case z of Inl e \<Rightarrow> True
     | Inr (fr, t, g') \<Rightarrow> s = Some fr \<and> iata t \<noteq> iata fr \<and> sset g' \<subseteq> sset h"
  have "?P src dst g y"
  proof (rule pick_while.raw_induct [where P = ?P, OF _ assms])
    fix pw :: "airport option \<Rightarrow> airport option \<Rightarrow> rng
                 \<Rightarrow> (error + airport \<times> airport \<times> rng) option"
      and s d :: "airport option" and h :: rng
      and z :: "error + airport \<times> airport \<times> rng"
    assume IH: "\<And>s d h z. pw s d h = Some z \<Longrightarrow> ?P s d h z"
      and step: "(case d of
          None \<Rightarrow> Some (Inl TypeError)
        | Some t \<Rightarrow>
            (case s of
               None \<Rightarrow> Some (Inl TypeError)
             | Some fr \<Rightarrow>
                 if iata t = iata fr
                 then pw s (airport_at \<lfloor>shd h * real (length AIRPORTS)\<rfloor>) (stl h)
                 else Some (Inr (fr, t, h)))) = Some z"
    show "?P s d h z"
    proof (cases d)
      case None
      with step show ?thesis by auto
    next
      case (Some t)
      note d = this
      show ?thesis
      proof (cases s)
        case None
        with d step show ?thesis by auto
      next
        case (Some fr)
        show ?thesis
        proof (cases "iata t = iata fr")
          case True
          with d Some step
          have "pw s (airport_at \<lfloor>shd h * real (length AIRPORTS)\<rfloor>) (stl h) = Some z"
            by simp
          from IH [OF this] Some show ?thesis
            by (auto split: sum.splits dest: stl_sset)
        next
          case False
          with d Some step show ?thesis by auto
        qed
      qed
    qed
  qed
  then show ?thesis .
qed

lemma pickDifferentAirports_result:
  assumes "pickDifferentAirports g = Some (Inr (src, dst, g'))"
  shows "iata dst \<noteq> iata src \<and> sset g' \<subseteq> sset g"
proof -
  from assms
  have "pick_while (airport_at \<lfloor>shd g * real (length AIRPORTS)\<rfloor>)
          (airport_at \<lfloor>shd (stl g) * real (length AIRPORTS)\<rfloor>) (stl (stl g))
        = Some (Inr (src, dst, g'))"
    by (simp add: pickDifferentAirports_def Let_def)
  from pick_while_result [OF this] show ?thesis
    by (auto dest: stl_sset)
qed

lemma rng_ok_subset: "rng_ok g \<Longrightarrow> sset g' \<subseteq> sset g \<Longrightarrow> rng_ok g'"
  by (auto simp: rng_ok_def)

lemma makeFlight_result:
  assumes "makeFlight ident now g = Some (Inr (f, g'))"
  shows "\<exists>from to g1. pickDifferentAirports g = Some (Inr (from, to, g1)) \<and>
           flight_from f = iata from \<and> flight_to f = iata to \<and>
           speedKts f = \<lfloor>round_double (380 + round_double (shd g1 * 180))\<rfloor> \<and>
           altitudeFt f = \<lfloor>round_double (28000 + round_double (shd (stl g1) * 12000))\<rfloor>"
  using assms by (auto simp: makeFlight_def Let_def split: option.splits sum.splits)

text \<open>
  With random numbers in \<open>[0, 1)\<close> a generated flight has a speed from 380 to 560 and an
  altitude from 28000 to 40000, both ends included.
\<close>

lemma generated_speed_altitude_closed:
  assumes "makeFlight ident now g = Some (Inr (f, g'))" and "rng_ok g"
  shows "380 \<le> speedKts f \<and> speedKts f \<le> 560
    \<and> 28000 \<le> altitudeFt f \<and> altitudeFt f \<le> 40000"
proof -
  from makeFlight_result [OF assms(1)] obtain src dst g1 where
    p: "pickDifferentAirports g = Some (Inr (src, dst, g1))" and
    s: "speedKts f = \<lfloor>round_double (380 + round_double (shd g1 * 180))\<rfloor>" and
    a: "altitudeFt f = \<lfloor>round_double (28000 + round_double (shd (stl g1) * 12000))\<rfloor>"
    by blast
  from pickDifferentAirports_result [OF p] assms(2) have ok: "rng_ok g1"
    by (auto intro: rng_ok_subset)
  then have r1: "0 \<le> shd g1" "shd g1 < 1"
    by (auto simp: rng_ok_def shd_sset)
  from ok have r2: "0 \<le> shd (stl g1)" "shd (stl g1) < 1"
    by (auto simp: rng_ok_def shd_sset stl_sset)
  from floor_rounded_sum [OF r1, of 380 180] floor_rounded_sum [OF r2, of 28000 12000] s a
  show ?thesis by simp
qed

text \<open>
  The loop returns as soon as a draw selects an airport with another code than the origin's:
  with random numbers in \<open>[0, 1)\<close> every index is inside the catalog, so no field of
  \<^verbatim>\<open>undefined\<close> is read (the result is never a \<open>TypeError\<close>), and a pair is
  returned when some later draw differs.
\<close>

lemma airport_at_drawn:
  assumes "0 \<le> r" "r < 1"
  shows "\<exists>a. airport_at \<lfloor>r * real (length AIRPORTS)\<rfloor> = Some a"
proof -
  have "0 \<le> \<lfloor>r * 10\<rfloor>" using assms(1) by simp
  moreover have "\<lfloor>r * 10\<rfloor> < 10" using assms(2) by (simp add: floor_less_iff)
  ultimately show ?thesis by (simp add: airport_at_def AIRPORTS_def)
qed

lemma pick_while_returns:
  assumes "rng_ok g"
    and "airport_at \<lfloor>g !! n * real (length AIRPORTS)\<rfloor> = Some a" "iata a \<noteq> iata fr"
  shows "\<exists>t' g'. pick_while (Some fr) (Some t) g = Some (Inr (fr, t', g'))"
  using assms
proof (induction n arbitrary: t g)
  case 0
  show ?case
  proof (cases "iata t = iata fr")
    case True
    then have "pick_while (Some fr) (Some t) g = pick_while (Some fr) (Some a) (stl g)"
      using 0(2) by (subst pick_while.simps) simp
    also have "\<dots> = Some (Inr (fr, a, stl g))"
      using 0(3) by (subst pick_while.simps) simp
    finally show ?thesis by blast
  next
    case False
    then have "pick_while (Some fr) (Some t) g = Some (Inr (fr, t, g))"
      by (subst pick_while.simps) simp
    then show ?thesis by blast
  qed
next
  case (Suc n)
  show ?case
  proof (cases "iata t = iata fr")
    case True
    from Suc(2) have "0 \<le> shd g" "shd g < 1"
      by (auto simp: rng_ok_def shd_sset)
    from airport_at_drawn [OF this] obtain b where
      b: "airport_at \<lfloor>shd g * real (length AIRPORTS)\<rfloor> = Some b"
      by blast
    from Suc(2) have ok: "rng_ok (stl g)"
      by (auto simp: rng_ok_def dest: stl_sset)
    from Suc(3) have "airport_at \<lfloor>stl g !! n * real (length AIRPORTS)\<rfloor> = Some a"
      by simp
    from Suc.IH [OF ok this Suc(4), of b] obtain t' g' where
      "pick_while (Some fr) (Some b) (stl g) = Some (Inr (fr, t', g'))"
      by blast
    moreover from True b
    have "pick_while (Some fr) (Some t) g = pick_while (Some fr) (Some b) (stl g)"
      by (subst pick_while.simps) simp
    ultimately show ?thesis by simp
  next
    case False
    then have "pick_while (Some fr) (Some t) g = Some (Inr (fr, t, g))"
      by (subst pick_while.simps) simp
    then show ?thesis by blast
  qed
qed

lemma pickDifferentAirports_returns:
  assumes "rng_ok g"
    and "airport_at \<lfloor>shd g * real (length AIRPORTS)\<rfloor> = Some fr"
    and "airport_at \<lfloor>g !! Suc (Suc n) * real (length AIRPORTS)\<rfloor> = Some a"
    and "iata a \<noteq> iata fr"
  shows "\<exists>dst g'. pickDifferentAirports g = Some (Inr (fr, dst, g'))"
proof -
  from assms(1) have ok1: "rng_ok (stl g)" and ok2: "rng_ok (stl (stl g))"
    by (auto simp: rng_ok_def dest: stl_sset)
  from ok1 have "0 \<le> shd (stl g)" "shd (stl g) < 1"
    by (auto simp: rng_ok_def shd_sset)
  from airport_at_drawn [OF this] obtain t where
    t: "airport_at \<lfloor>shd (stl g) * real (length AIRPORTS)\<rfloor> = Some t"
    by blast
  from assms(3) have "airport_at \<lfloor>stl (stl g) !! n * real (length AIRPORTS)\<rfloor> = Some a"
    by simp
  from pick_while_returns [OF ok2 this assms(4), of t] assms(2) t show ?thesis
    by (simp add: pickDifferentAirports_def Let_def)
qed

lemma pick_while_no_error:
  assumes "pick_while src dst g = Some y" and "rng_ok g" and "src \<noteq> None" and "dst \<noteq> None"
  shows "\<exists>r. y = Inr r"
proof -
  let ?P = "\<lambda>(s :: airport option) (d :: airport option) (h :: rng)
       (z :: error + airport \<times> airport \<times> rng).
     rng_ok h \<longrightarrow> s \<noteq> None \<longrightarrow> d \<noteq> None \<longrightarrow> (\<exists>r. z = Inr r)"
  have "?P src dst g y"
  proof (rule pick_while.raw_induct [where P = ?P, OF _ assms(1)], intro impI)
    fix pw :: "airport option \<Rightarrow> airport option \<Rightarrow> rng
                 \<Rightarrow> (error + airport \<times> airport \<times> rng) option"
      and s d :: "airport option" and h :: rng
      and z :: "error + airport \<times> airport \<times> rng"
    assume IH: "\<And>s d h z. pw s d h = Some z \<Longrightarrow> ?P s d h z"
      and step: "(case d of
          None \<Rightarrow> Some (Inl TypeError)
        | Some t \<Rightarrow>
            (case s of
               None \<Rightarrow> Some (Inl TypeError)
             | Some fr \<Rightarrow>
                 if iata t = iata fr
                 then pw s (airport_at \<lfloor>shd h * real (length AIRPORTS)\<rfloor>) (stl h)
                 else Some (Inr (fr, t, h)))) = Some z"
      and ok: "rng_ok h" and s: "s \<noteq> None" and d: "d \<noteq> None"
    from s d obtain fr t where sd: "s = Some fr" "d = Some t" by auto
    show "\<exists>r. z = Inr r"
    proof (cases "iata t = iata fr")
      case True
      with sd step
      have rec: "pw s (airport_at \<lfloor>shd h * real (length AIRPORTS)\<rfloor>) (stl h) = Some z"
        by simp
      from ok have "0 \<le> shd h" "shd h < 1"
        by (auto simp: rng_ok_def shd_sset)
      from airport_at_drawn [OF this]
      have "airport_at \<lfloor>shd h * real (length AIRPORTS)\<rfloor> \<noteq> None"
        by auto
      moreover from ok have "rng_ok (stl h)"
        by (auto simp: rng_ok_def dest: stl_sset)
      ultimately show ?thesis using IH [OF rec] s by blast
    next
      case False
      with sd step show ?thesis by auto
    qed
  qed
  with assms(2-4) show ?thesis by blast
qed

lemma pickDifferentAirports_no_error:
  assumes "rng_ok g"
  shows "pickDifferentAirports g \<noteq> Some (Inl e)"
proof
  assume "pickDifferentAirports g = Some (Inl e)"
  then have p: "pick_while (airport_at \<lfloor>shd g * real (length AIRPORTS)\<rfloor>)
          (airport_at \<lfloor>shd (stl g) * real (length AIRPORTS)\<rfloor>) (stl (stl g))
        = Some (Inl e)"
    by (simp add: pickDifferentAirports_def Let_def)
  from assms have ok1: "rng_ok (stl g)" and ok2: "rng_ok (stl (stl g))"
    by (auto simp: rng_ok_def dest: stl_sset)
  from assms have "0 \<le> shd g" "shd g < 1"
    by (auto simp: rng_ok_def shd_sset)
  from airport_at_drawn [OF this]
  have a: "airport_at \<lfloor>shd g * real (length AIRPORTS)\<rfloor> \<noteq> None" by auto
  from ok1 have "0 \<le> shd (stl g)" "shd (stl g) < 1"
    by (auto simp: rng_ok_def shd_sset)
  from airport_at_drawn [OF this]
  have b: "airport_at \<lfloor>shd (stl g) * real (length AIRPORTS)\<rfloor> \<noteq> None" by auto
  from pick_while_no_error [OF p ok2 a b] show False by simp
qed

lemma makeFlight_no_error:
  assumes "rng_ok g"
  shows "makeFlight ident now g \<noteq> Some (Inl e)"
  using pickDifferentAirports_no_error [OF assms]
  by (auto simp: makeFlight_def Let_def split: option.splits sum.splits)

section \<open>The shape of a tick\<close>

text \<open>
  A tick that returns a flight took one of three paths: no time has passed and the flight is
  the same; the flight is not near its destination and the result is the projected flight
  with the heading's wander; or it is near and the result is the re-routed, projected flight
  with the wander.
\<close>

lemma dtHours_le: "dtHours f now \<le> 0 \<longleftrightarrow> now \<le> updatedAt f"
  by (simp add: dtHours_def max_def)

lemma advance_frame:
  "flight_id (advance f now) = flight_id f" "callsign (advance f now) = callsign f"
  "flight_from (advance f now) = flight_from f" "flight_to (advance f now) = flight_to f"
  "heading (advance f now) = heading f" "speedKts (advance f now) = speedKts f"
  "altitudeFt (advance f now) = altitudeFt f" "createdAt (advance f now) = createdAt f"
  "updatedAt (advance f now) = now"
  by (simp_all add: advance_def Let_def)

lemma advance_position:
  "lat (advance f now) =
     lat (move \<lparr>lat = lat f, lon = lon f\<rparr> (heading f)
       (real_of_int (speedKts f) * 1.852 * dtHours f now))"
  "lon (advance f now) =
     lon (move \<lparr>lat = lat f, lon = lon f\<rparr> (heading f)
       (real_of_int (speedKts f) * 1.852 * dtHours f now))"
  by (simp_all add: advance_def Let_def)

lemma reroute_result:
  assumes "reroute f g = Some (Inr (f', g'))"
  shows "\<exists>from to. pickDifferentAirports g = Some (Inr (from, to, g')) \<and>
           f' = f\<lparr>flight_from := iata from, flight_to := iata to,
                  heading := bearingDegrees from to\<rparr>"
  using assms by (auto simp: reroute_def split: option.splits sum.splits)

lemma tick_cases:
  assumes "tick f now g = Some (Inr (f', g'))"
  obtains
    (same) "now \<le> updatedAt f" "f' = f" "g' = g"
  | (cruise) "updatedAt f < now" "\<not> near_destination (advance f now)"
      "(f', g') = wander (advance f now) g"
  | (arrive) f2 g2 where "updatedAt f < now" "near_destination (advance f now)"
      "reroute (advance f now) g = Some (Inr (f2, g2))" "(f', g') = wander f2 g2"
  using assms
  by (auto simp: tick_def dtHours_le Let_def not_le split: if_splits option.splits sum.splits)

lemma tick_cruise:
  "updatedAt f < now \<Longrightarrow> \<not> near_destination (advance f now) \<Longrightarrow>
     tick f now g = Some (Inr (wander (advance f now) g))"
  by (simp add: tick_def dtHours_le Let_def)

lemma tick_arrive:
  "updatedAt f < now \<Longrightarrow> near_destination (advance f now) \<Longrightarrow>
     reroute (advance f now) g = Some (Inr (f2, g2)) \<Longrightarrow>
     tick f now g = Some (Inr (wander f2 g2))"
  by (simp add: tick_def dtHours_le Let_def)

lemma unknown_destination_not_near:
  "find (\<lambda>a. iata a = flight_to f) AIRPORTS = None \<Longrightarrow> \<not> near_destination (advance f now)"
  by (simp add: near_destination_def advance_frame)

text \<open>
  The wander leaves the heading strictly between -360 and 360. When the flight is not
  re-routed and the heading plus the wander's addend is negative, the remainder keeps it
  negative: the tick returns that sum as the heading.
\<close>

lemma wander_heading_range:
  "- 360 < heading (fst (wander f g)) \<and> heading (fst (wander f g)) < 360"
proof (cases "0 \<le> heading f + (shd g * 2 - 1) * 2")
  case True
  from js_rem_nonneg [OF this, of 360] show ?thesis by (simp add: wander_def)
next
  case False
  then have "heading f + (shd g * 2 - 1) * 2 < 0" by simp
  from js_rem_neg [OF this, of 360] show ?thesis by (simp add: wander_def)
qed

lemma tick_heading_below_zero:
  assumes "updatedAt f < now" and "\<not> near_destination (advance f now)"
    and "- 360 < heading f + (shd g * 2 - 1) * 2" and "heading f + (shd g * 2 - 1) * 2 < 0"
  shows "tick f now g
    = Some (Inr ((advance f now)\<lparr>heading := heading f + (shd g * 2 - 1) * 2\<rparr>, stl g))"
  using tick_cruise [OF assms(1,2), of g] js_rem_negative [OF assms(3,4)]
  by (simp add: wander_def advance_frame)

text \<open>With random numbers in \<open>[0, 1)\<close> a tick never ends in a \<open>TypeError\<close>.\<close>

lemma tick_no_error:
  assumes "rng_ok g"
  shows "tick f now g \<noteq> Some (Inl e)"
  using pickDifferentAirports_no_error [OF assms]
  by (auto simp: tick_def reroute_def Let_def split: option.splits sum.splits)

section \<open>The sample flights, evaluated\<close>

text \<open>
  In 36 seconds at 480 knots a flight covers 8.8896 km, less than 0.13 degrees of latitude.
  After that step \<open>northbound\<close> is still more than a thousand kilometres from JFK, and
  \<open>arriving\<close> is within 30 km of it.
\<close>

lemma JFK_simps: "lat JFK = 40.6413" "lon JFK = - 73.7781" "iata JFK = ''JFK''"
  by (simp_all add: JFK_def AIRPORTS_def)

lemma LAX_simps: "lat LAX = 33.9416" "lon LAX = - 118.4085" "iata LAX = ''LAX''"
  by (simp_all add: LAX_def AIRPORTS_def)

lemma find_JFK: "find (\<lambda>a. iata a = ''JFK'') AIRPORTS = Some JFK"
  by (simp add: JFK_def AIRPORTS_def)

lemma near_JFK:
  "flight_to f = ''JFK'' \<Longrightarrow>
     near_destination f \<longleftrightarrow> distanceKm \<lparr>lat = lat f, lon = lon f\<rparr> JFK < 30"
  by (simp add: near_destination_def find_JFK)

lemma find_XXX: "find (\<lambda>a. iata a = ''XXX'') AIRPORTS = None"
  by (simp add: AIRPORTS_def)

lemma step_degrees:
  "0 < 8.8896 / 6371 * 180 / pi" "8.8896 / 6371 * 180 / pi < 0.13"
proof -
  show "0 < 8.8896 / 6371 * 180 / (pi::real)" by simp
  have "(8.8896::real) / 6371 * 180 < 0.13 * 2" by simp
  also have "\<dots> \<le> 0.13 * pi" using pi_ge_two by simp
  finally show "8.8896 / 6371 * 180 / pi < 0.13"
    by (simp only: pos_divide_less_eq pi_gt_zero)
qed

lemma advance_north:
  assumes "heading f = 0" "speedKts f = 480" "updatedAt f = 0" "lon f = - 73.7781"
    and "0 \<le> lat f" "lat f \<le> 41"
  shows "advance f 36000 = f\<lparr>lat := lat f + 8.8896 / 6371 * 180 / pi, updatedAt := 36000\<rparr>"
proof -
  have s: "real_of_int (speedKts f) * 1.852 * dtHours f 36000 = 8.8896"
    using assms(2,3) by (simp add: dtHours_def)
  have "lat f * pi / 180 \<le> 41 * pi / 180" using assms(6) by simp
  moreover have "(8.8896::real) / 6371 < 0.01" by simp
  moreover have "41 * pi / 180 + 0.01 < pi / 2" using pi_ge_two by simp
  ultimately have "lat f * pi / 180 + 8.8896 / 6371 < pi / 2" by linarith
  then have m: "move \<lparr>lat = lat f, lon = lon f\<rparr> 0 8.8896
      = \<lparr>lat = lat f + 8.8896 / 6371 * 180 / pi, lon = lon f\<rparr>"
    using assms(4,5) move_north [of "\<lparr>lat = lat f, lon = lon f\<rparr>" "8.8896"] by simp
  show ?thesis
    unfolding advance_def Let_def s assms(1) m by simp
qed

lemma advance_northbound:
  "advance northbound 36000
     = northbound\<lparr>lat := 30.6413 + 8.8896 / 6371 * 180 / pi, updatedAt := 36000\<rparr>"
  using advance_north [of northbound] by (simp add: northbound_def)

lemma advance_arriving:
  "advance arriving 36000
     = arriving\<lparr>lat := 40.4413 + 8.8896 / 6371 * 180 / pi, updatedAt := 36000\<rparr>"
  using advance_north [of arriving] by (simp add: arriving_def northbound_def)

lemma northbound_not_near: "\<not> near_destination (advance northbound 36000)"
proof -
  let ?L = "8.8896 / 6371 * 180 / pi :: real"
  let ?p = "\<lparr>lat = 30.6413 + ?L, lon = - 73.7781\<rparr>"
  have L: "0 < ?L" "?L < 0.13" using step_degrees by simp_all
  then have a: "\<bar>lat JFK - lat ?p\<bar> = 10 - ?L" by (simp add: JFK_simps)
  with L have "\<bar>lat JFK - lat ?p\<bar> \<le> 180" by linarith
  then have "distanceKm ?p JFK = 6371 * (\<bar>lat JFK - lat ?p\<bar> * pi / 180)"
    by (intro distance_meridian) (simp add: JFK_simps)
  also have "\<dots> = 6371 * ((10 - ?L) * pi / 180)" by (simp only: a)
  also have "\<dots> = 6371 * 10 * pi / 180 - 8.8896" by (simp add: field_simps)
  finally have d: "distanceKm ?p JFK = 6371 * 10 * pi / 180 - 8.8896" .
  have "30 \<le> 6371 * 10 * pi / 180 - 8.8896" using pi_ge_two by simp
  with d have "\<not> distanceKm ?p JFK < 30" by simp
  moreover have "flight_to (advance northbound 36000) = ''JFK''"
      "lat (advance northbound 36000) = 30.6413 + ?L"
      "lon (advance northbound 36000) = - 73.7781"
    unfolding advance_northbound by (simp_all add: northbound_def)
  ultimately show ?thesis
    by (simp add: near_JFK)
qed

lemma arriving_near: "near_destination (advance arriving 36000)"
proof -
  let ?L = "8.8896 / 6371 * 180 / pi :: real"
  let ?p = "\<lparr>lat = 40.4413 + ?L, lon = - 73.7781\<rparr>"
  have L: "0 < ?L" "?L < 0.13" using step_degrees by simp_all
  then have a: "\<bar>lat JFK - lat ?p\<bar> = 0.2 - ?L" by (simp add: JFK_simps)
  with L have "\<bar>lat JFK - lat ?p\<bar> \<le> 180" by linarith
  then have "distanceKm ?p JFK = 6371 * (\<bar>lat JFK - lat ?p\<bar> * pi / 180)"
    by (intro distance_meridian) (simp add: JFK_simps)
  also have "\<dots> = 6371 * ((0.2 - ?L) * pi / 180)" by (simp only: a)
  also have "\<dots> = 6371 * 0.2 * pi / 180 - 8.8896" by (simp add: field_simps)
  finally have d: "distanceKm ?p JFK = 6371 * 0.2 * pi / 180 - 8.8896" .
  have "6371 * 0.2 * pi / 180 - 8.8896 < 30" using pi_less_4 by simp
  with d have "distanceKm ?p JFK < 30" by simp
  moreover have "flight_to (advance arriving 36000) = ''JFK''"
      "lat (advance arriving 36000) = 40.4413 + ?L"
      "lon (advance arriving 36000) = - 73.7781"
    unfolding advance_arriving by (simp_all add: arriving_def northbound_def)
  ultimately show ?thesis
    by (simp add: near_JFK)
qed

lemma pick_LAX_JFK: "pickDifferentAirports (0.15 ## 0.05 ## g) = Some (Inr (LAX, JFK, g))"
  unfolding pickDifferentAirports_def Let_def
  by (subst pick_while.simps) (simp add: airport_at_def LAX_def JFK_def AIRPORTS_def)

lemma tick_northbound:
  "tick northbound 36000 (sconst 0.25)
     = Some (Inr ((advance northbound 36000)\<lparr>heading := - 1\<rparr>, sconst 0.25))"
proof -
  have u: "updatedAt northbound < 36000" by (simp add: northbound_def)
  have "js_rem (- 1) 360 = - 1" by (rule js_rem_negative) simp_all
  then have "wander (advance northbound 36000) (sconst 0.25)
      = ((advance northbound 36000)\<lparr>heading := - 1\<rparr>, sconst 0.25)"
    by (simp add: wander_def advance_frame northbound_def)
  with tick_cruise [OF u northbound_not_near] show ?thesis by simp
qed

lemma reroute_arriving:
  "reroute (advance arriving 36000) (0.15 ## 0.05 ## sconst 0.5)
     = Some (Inr ((advance arriving 36000)
          \<lparr>flight_from := ''LAX'', flight_to := ''JFK'', heading := bearingDegrees LAX JFK\<rparr>,
        sconst 0.5))"
  unfolding reroute_def pick_LAX_JFK by (simp add: LAX_simps JFK_simps)

lemma tick_arriving:
  "tick arriving 36000 (0.15 ## 0.05 ## sconst 0.5)
     = Some (Inr ((advance arriving 36000)
          \<lparr>flight_from := ''LAX'', flight_to := ''JFK'', heading := bearingDegrees LAX JFK\<rparr>,
        sconst 0.5))"
proof -
  have u: "updatedAt arriving < 36000" by (simp add: arriving_def northbound_def)
  have "js_rem (bearingDegrees LAX JFK) 360 = bearingDegrees LAX JFK"
    using bearing_range [of LAX JFK] by (intro js_rem_small) simp_all
  then have "wander ((advance arriving 36000)
          \<lparr>flight_from := ''LAX'', flight_to := ''JFK'', heading := bearingDegrees LAX JFK\<rparr>)
        (sconst 0.5)
      = ((advance arriving 36000)
          \<lparr>flight_from := ''LAX'', flight_to := ''JFK'', heading := bearingDegrees LAX JFK\<rparr>,
        sconst 0.5)"
    by (simp add: wander_def)
  with tick_arrive [OF u arriving_near reroute_arriving] show ?thesis by simp
qed

lemma digits_4999: "digits 4999 = ''4999''"
  by (simp add: digits.simps digit_def)

lemma makeFlight_newborn:
  "makeFlight ''V1StGXR8'' 0 (0.15 ## 0.05 ## sconst 0.5) = Some (Inr (newborn, sconst 0.5))"
  unfolding makeFlight_def pick_LAX_JFK
  by (simp add: Let_def String_of_def padStart_def digits_4999 newborn_def LAX_simps JFK_simps
      round_double_90 round_double_470 round_double_6000 round_double_34000)

lemma rng_ok_example: "rng_ok (0.15 ## 0.05 ## sconst 0.5)"
  by (simp add: rng_ok_def)

text \<open>The generator at the random numbers 0.15, 0.05, \<open>1 - 2 ^ -52\<close>, \<open>1 - 2 ^ -52\<close>, 0.5, ...\<close>

lemma speed_at_top:
  "\<lfloor>round_double (380 + round_double ((1 - 1 / 2 ^ 52) * 180))\<rfloor> = 560"
  unfolding round_double_top_180 round_double_top_560 by simp

lemma altitude_at_top:
  "\<lfloor>round_double (28000 + round_double ((1 - 1 / 2 ^ 52) * 12000))\<rfloor> = 40000"
  unfolding round_double_top_12000 round_double_top_40000 by simp

lemma makeFlight_at_top:
  "makeFlight ''V1StGXR8'' 0
     (0.15 ## 0.05 ## (1 - 1 / 2 ^ 52) ## (1 - 1 / 2 ^ 52) ## sconst 0.5)
   = Some (Inr (newborn\<lparr>speedKts := 560, altitudeFt := 40000\<rparr>, sconst 0.5))"
  apply (simp only: makeFlight_def pick_LAX_JFK option.case sum.case prod.case Let_def
      stream.sel speed_at_top altitude_at_top)
  apply (simp add: String_of_def padStart_def digits_4999 newborn_def LAX_simps JFK_simps)
  done

lemma rng_ok_at_top:
  "rng_ok (0.15 ## 0.05 ## (1 - 1 / 2 ^ 52) ## (1 - 1 / 2 ^ 52) ## sconst 0.5)"
  by (simp add: rng_ok_def)

section \<open>Properties of the simulator\<close>

text \<open>
  C1: the heading after a tick should lie in \<open>[0, 360)\<close>. It does not for the flight
  \<open>northbound\<close>, whose heading is 0: when 36 seconds have passed and \<^verbatim>\<open>Math.random()\<close>
  returns 0.25, the wander adds -1 degree, the remainder \<^verbatim>\<open>-1 % 360\<close> is -1, and the tick
  returns the flight with the heading -1.
\<close>

theorem wander_makes_heading_negative:
  "tick northbound 36000 (sconst 0.25)
     = Some (Inr ((advance northbound 36000)\<lparr>heading := - 1\<rparr>, sconst 0.25))
   \<and> heading northbound = 0
   \<and> heading ((advance northbound 36000)\<lparr>heading := - 1\<rparr>) < 0"
  using tick_northbound by (simp add: northbound_def)

text \<open>
  C2, as the code has it: for every point whose longitude is at least -360 degrees (every
  point of the data model is), every bearing and every distance, the longitude of the point
  that \<open>move\<close> returns lies in \<open>[-180, 180)\<close>: at least -180 and less than 180.
\<close>

theorem move_lon_range:
  assumes "- 360 \<le> lon p"
  shows "- 180 \<le> lon (move p b d) \<and> lon (move p b d) < 180"
proof -
  obtain y x where
    l: "lon (move p b d) = js_rem ((lon p * pi / 180 + atan2 y x) * 180 / pi + 540) 360 - 180"
    using move_lon_eq by blast
  have "(lon p * pi / 180 + atan2 y x) * 180 / pi = lon p + atan2 y x * 180 / pi"
    by (simp add: field_simps)
  moreover have "- 180 < atan2 y x * 180 / pi"
    using atan2_bounds [of y x] by (simp add: field_simps)
  ultimately have "0 \<le> (lon p * pi / 180 + atan2 y x) * 180 / pi + 540"
    using assms by linarith
  from js_rem_nonneg [OF this, of 360] l show ?thesis by simp
qed

text \<open>The range of C2 at JFK, moved 100 km due east.\<close>

theorem move_lon_range_witness:
  "- 360 \<le> lon JFK \<and> - 180 \<le> lon (move JFK 90 100) \<and> lon (move JFK 90 100) < 180"
  using move_lon_range [of JFK 90 100] by (simp add: JFK_simps)

text \<open>
  C2 as stated, with the interval \<open>(-180, 180]\<close>, fails: a move of 0 km from the point
  at latitude 0 and longitude 180 returns the longitude -180.
\<close>

theorem move_lon_counterexample:
  "\<not> (- 180 < lon (move \<lparr>lat = 0, lon = 180\<rparr> 0 0)
      \<and> lon (move \<lparr>lat = 0, lon = 180\<rparr> 0 0) \<le> 180)"
proof -
  have "js_rem 720 360 = 0" by (simp add: js_rem_def trunc_def)
  moreover have "atan2 0 1 = 0" by (simp add: atan2_def)
  ultimately have "lon (move \<lparr>lat = 0, lon = 180\<rparr> 0 0) = - 180"
    unfolding move_def Let_def by simp
  then show ?thesis by simp
qed

text \<open>
  C3: when the current time is not later than the flight's \<open>updatedAt\<close>, the tick returns
  the flight with every field unchanged (and draws no random number).
\<close>

theorem tick_no_elapsed_time:
  "now \<le> updatedAt f \<Longrightarrow> tick f now g = Some (Inr (f, g))"
  by (simp add: tick_def dtHours_le)

text \<open>C3 at a clock that runs 5 ms behind the flight's last update.\<close>

theorem tick_no_elapsed_time_witness:
  "(- 5 :: int) \<le> updatedAt northbound
   \<and> tick northbound (- 5) (sconst 0.25) = Some (Inr (northbound, sconst 0.25))"
  using tick_no_elapsed_time [of "- 5" northbound "sconst 0.25"] by (simp add: northbound_def)

text \<open>
  C4: every flight that the generator returns, and every flight that any sequence of ticks
  returns from it, has an origin code different from its destination code.
\<close>

theorem origin_differs_from_destination:
  "reachable f \<Longrightarrow> flight_from f \<noteq> flight_to f"
proof (induction rule: reachable.induct)
  case (generated ident now g f g')
  from makeFlight_result [OF this] obtain src dst g1 where
    "pickDifferentAirports g = Some (Inr (src, dst, g1))"
    "flight_from f = iata src" "flight_to f = iata dst"
    by blast
  with pickDifferentAirports_result [of g src dst g1] show ?case by auto
next
  case (ticked f now g f' g')
  from ticked(2) show ?case
  proof (cases rule: tick_cases)
    case same
    with ticked(3) show ?thesis by simp
  next
    case cruise
    with ticked(3) show ?thesis by (auto simp: wander_def advance_def Let_def)
  next
    case (arrive f2 g2)
    from reroute_result [OF arrive(3)] obtain src dst where
      p: "pickDifferentAirports g = Some (Inr (src, dst, g2))" and
      f2: "f2 = (advance f now)\<lparr>flight_from := iata src, flight_to := iata dst,
                  heading := bearingDegrees src dst\<rparr>"
      by blast
    from pickDifferentAirports_result [OF p] f2 arrive(4) show ?thesis
      by (auto simp: wander_def)
  qed
qed

text \<open>C4 at the generated flight \<open>newborn\<close>, from LAX to JFK.\<close>

theorem origin_differs_from_destination_witness:
  "reachable newborn \<and> flight_from newborn \<noteq> flight_to newborn"
proof -
  have r: "reachable newborn"
    by (rule reachable.generated [OF makeFlight_newborn])
  from origin_differs_from_destination [OF r] r show ?thesis by simp
qed

text \<open>
  C5: when the projected position is near the destination, the flight that the tick returns
  is the projected flight with only the origin code, the destination code and the heading
  overwritten: its position is the one that the projection of this tick computed, and its
  speed, altitude, id, callsign and \<open>createdAt\<close> are those of the flight before the tick.
\<close>

theorem reroute_frame:
  assumes "updatedAt f < now" and "near_destination (advance f now)"
    and "tick f now g = Some (Inr (f', g'))"
  shows "f' = (advance f now)\<lparr>flight_from := flight_from f', flight_to := flight_to f',
                               heading := heading f'\<rparr>
    \<and> lat f' = lat (move \<lparr>lat = lat f, lon = lon f\<rparr> (heading f)
                  (real_of_int (speedKts f) * 1.852 * dtHours f now))
    \<and> lon f' = lon (move \<lparr>lat = lat f, lon = lon f\<rparr> (heading f)
                  (real_of_int (speedKts f) * 1.852 * dtHours f now))
    \<and> speedKts f' = speedKts f \<and> altitudeFt f' = altitudeFt f
    \<and> flight_id f' = flight_id f \<and> callsign f' = callsign f \<and> createdAt f' = createdAt f"
  using assms(3)
proof (cases rule: tick_cases)
  case same
  with assms(1) show ?thesis by simp
next
  case cruise
  with assms(2) show ?thesis by simp
next
  case (arrive f2 g2)
  from reroute_result [OF arrive(3)] obtain src dst :: airport where
    "f2 = (advance f now)\<lparr>flight_from := iata src, flight_to := iata dst,
            heading := bearingDegrees src dst\<rparr>"
    by blast
  with arrive(4) have f': "f' = (advance f now)\<lparr>flight_from := iata src, flight_to := iata dst,
            heading := js_rem (bearingDegrees src dst + (shd g2 * 2 - 1) * 2) 360\<rparr>"
    by (simp add: wander_def)
  show ?thesis
    unfolding f' by (simp add: advance_frame advance_position)
qed

text \<open>C5 at the flight \<open>arriving\<close>, re-routed from LAX to JFK.\<close>

theorem reroute_frame_witness:
  "updatedAt arriving < 36000 \<and> near_destination (advance arriving 36000)
   \<and> tick arriving 36000 (0.15 ## 0.05 ## sconst 0.5)
       = Some (Inr ((advance arriving 36000)
            \<lparr>flight_from := ''LAX'', flight_to := ''JFK'', heading := bearingDegrees LAX JFK\<rparr>,
          sconst 0.5))
   \<and> lat ((advance arriving 36000)
            \<lparr>flight_from := ''LAX'', flight_to := ''JFK'', heading := bearingDegrees LAX JFK\<rparr>)
       = lat (move \<lparr>lat = lat arriving, lon = lon arriving\<rparr> (heading arriving)
                  (real_of_int (speedKts arriving) * 1.852 * dtHours arriving 36000))
   \<and> speedKts ((advance arriving 36000)
            \<lparr>flight_from := ''LAX'', flight_to := ''JFK'', heading := bearingDegrees LAX JFK\<rparr>)
       = speedKts arriving
   \<and> callsign ((advance arriving 36000)
            \<lparr>flight_from := ''LAX'', flight_to := ''JFK'', heading := bearingDegrees LAX JFK\<rparr>)
       = callsign arriving"
proof -
  have u: "updatedAt arriving < 36000" by (simp add: arriving_def northbound_def)
  from reroute_frame [OF u arriving_near tick_arriving] u arriving_near tick_arriving
  show ?thesis by simp
qed

text \<open>
  C6: the distance from \<open>a\<close> to \<open>b\<close> is the distance from \<open>b\<close> to \<open>a\<close>, and the distance from
  a point to itself is 0.
\<close>

theorem distanceKm_symmetric_zero:
  "distanceKm a b = distanceKm b a \<and> distanceKm a a = 0"
proof
  have flip: "(sin ((x - y) * pi / 180 / 2))\<^sup>2 = (sin ((y - x) * pi / 180 / 2))\<^sup>2" for x y :: real
  proof -
    have "x - y = - (y - x)"
      by simp
    then have "(x - y) * pi / 180 / 2 = - ((y - x) * pi / 180 / 2)"
      by (simp only: mult_minus_left minus_divide_left)
    then show ?thesis
      by (simp only: sin_minus power2_minus)
  qed
  show "distanceKm a b = distanceKm b a"
    unfolding distanceKm_def Let_def
    by (simp only: flip [of "lat b" "lat a"] flip [of "lon b" "lon a"] mult.commute [of "cos (lat a * pi / 180)"])
  show "distanceKm a a = 0"
    by (simp add: distanceKm_def)
qed

text \<open>
  C7: for a flight whose destination code is not in the catalog, the tick always returns a
  flight, never an error and never a run without end, with the origin and destination codes
  unchanged; and when time has passed, that flight is the given one with the position
  projected, \<open>updatedAt\<close> set to the current time and the heading perturbed by the wander.
\<close>

theorem unknown_destination_no_failure:
  assumes "find (\<lambda>a. iata a = flight_to f) AIRPORTS = None"
  shows "(\<exists>f' g'. tick f now g = Some (Inr (f', g'))
            \<and> flight_from f' = flight_from f \<and> flight_to f' = flight_to f)
    \<and> (updatedAt f < now \<longrightarrow>
         tick f now g = Some (Inr
           (f\<lparr>lat := lat (move \<lparr>lat = lat f, lon = lon f\<rparr> (heading f)
                        (real_of_int (speedKts f) * 1.852 * dtHours f now)),
              lon := lon (move \<lparr>lat = lat f, lon = lon f\<rparr> (heading f)
                        (real_of_int (speedKts f) * 1.852 * dtHours f now)),
              updatedAt := now,
              heading := js_rem (heading f + (shd g * 2 - 1) * 2) 360\<rparr>,
            stl g)))"
proof (cases "updatedAt f < now")
  case True
  from tick_cruise [OF True unknown_destination_not_near [OF assms]]
  have "tick f now g = Some (Inr (wander (advance f now) g))" .
  then show ?thesis
    by (simp add: wander_def advance_def Let_def)
next
  case False
  then have "tick f now g = Some (Inr (f, g))"
    by (simp add: tick_def dtHours_le)
  with False show ?thesis by simp
qed

text \<open>C7 at the flight \<open>stray\<close>, bound for the unknown code XXX.\<close>

theorem unknown_destination_no_failure_witness:
  "find (\<lambda>a. iata a = flight_to stray) AIRPORTS = None
   \<and> updatedAt stray < 36000
   \<and> tick stray 36000 (sconst 0.25) = Some (Inr
        (stray\<lparr>lat := lat (move \<lparr>lat = lat stray, lon = lon stray\<rparr> (heading stray)
                        (real_of_int (speedKts stray) * 1.852 * dtHours stray 36000)),
               lon := lon (move \<lparr>lat = lat stray, lon = lon stray\<rparr> (heading stray)
                        (real_of_int (speedKts stray) * 1.852 * dtHours stray 36000)),
               updatedAt := 36000,
               heading := js_rem (heading stray + (shd (sconst 0.25) * 2 - 1) * 2) 360\<rparr>,
         stl (sconst 0.25)))"
proof -
  have f: "find (\<lambda>a. iata a = flight_to stray) AIRPORTS = None"
    by (simp add: stray_def northbound_def find_XXX)
  have u: "updatedAt stray < 36000"
    by (simp add: stray_def northbound_def)
  from unknown_destination_no_failure [OF f, of 36000 "sconst 0.25"] f u
  show ?thesis by blast
qed

text \<open>
  C8: the \<open>updatedAt\<close> of the flight that a tick returns is never earlier than the one
  of the flight it was given, whatever the current time.
\<close>

theorem updatedAt_monotone:
  assumes "tick f now g = Some (Inr (f', g'))"
  shows "updatedAt f \<le> updatedAt f'"
  using assms
proof (cases rule: tick_cases)
  case same
  then show ?thesis by simp
next
  case cruise
  then show ?thesis by (auto simp: wander_def advance_def Let_def)
next
  case (arrive f2 g2)
  from reroute_result [OF arrive(3)] arrive(1,4) show ?thesis
    by (auto simp: wander_def advance_def Let_def)
qed

text \<open>C8 at the flight \<open>northbound\<close>, ticked 36 seconds after its last update.\<close>

theorem updatedAt_monotone_witness:
  "tick northbound 36000 (sconst 0.25)
     = Some (Inr ((advance northbound 36000)\<lparr>heading := - 1\<rparr>, sconst 0.25))
   \<and> updatedAt northbound \<le> updatedAt ((advance northbound 36000)\<lparr>heading := - 1\<rparr>)"
  using updatedAt_monotone [OF tick_northbound] tick_northbound by simp

text \<open>
  C9: a generated flight should have a speed in \<open>[380, 560)\<close> knots and an altitude in
  \<open>[28000, 40000)\<close> feet for every outcome of the random source. It does not when
  \<^verbatim>\<open>Math.random()\<close> returns \<open>1 - 2 ^ -52\<close>, a number in \<open>[0, 1)\<close>: the product with
  180 rounds to \<open>180 - 2 ^ -45\<close> and the sum with 380 rounds to 560, the product with 12000
  rounds to \<open>12000 - 2 ^ -39\<close> and the sum with 28000 rounds to 40000, and
  \<open>makeFlight\<close> returns a flight with the speed 560 and the altitude 40000.
\<close>

theorem generated_speed_reaches_560:
  "makeFlight ''V1StGXR8'' 0
     (0.15 ## 0.05 ## (1 - 1 / 2 ^ 52) ## (1 - 1 / 2 ^ 52) ## sconst 0.5)
   = Some (Inr (newborn\<lparr>speedKts := 560, altitudeFt := 40000\<rparr>, sconst 0.5))
   \<and> (0::real) \<le> 1 - 1 / 2 ^ 52 \<and> (1::real) - 1 / 2 ^ 52 < 1
   \<and> \<not> speedKts (newborn\<lparr>speedKts := 560, altitudeFt := 40000\<rparr>) < 560
   \<and> \<not> altitudeFt (newborn\<lparr>speedKts := 560, altitudeFt := 40000\<rparr>) < 40000"
  using makeFlight_at_top by simp

text \<open>
  C10: when a re-route fires, the heading it installs, before the wander, is the bearing
  from the new origin airport to the new destination airport; the position of the flight
  plays no part in it. So it need not point from the aircraft to the new destination: the
  flight \<open>arriving\<close>, just south of JFK and re-routed from LAX to JFK, gets the bearing
  from LAX to JFK, which is not 0, while the bearing from its own position to JFK is 0.
\<close>

theorem reroute_heading_between_airports:
  "(\<forall>f now g f' g'.
      updatedAt f < now \<and> near_destination (advance f now)
        \<and> tick f now g = Some (Inr (f', g')) \<longrightarrow>
      (\<exists>src dst g1.
         pickDifferentAirports g = Some (Inr (src, dst, g1))
         \<and> reroute (advance f now) g = Some (Inr
              ((advance f now)\<lparr>flight_from := iata src, flight_to := iata dst,
                                heading := bearingDegrees src dst\<rparr>, g1))
         \<and> (f', g') = wander
              ((advance f now)\<lparr>flight_from := iata src, flight_to := iata dst,
                                heading := bearingDegrees src dst\<rparr>) g1))
   \<and> (\<exists>f2 g2.
        updatedAt arriving < 36000 \<and> near_destination (advance arriving 36000)
        \<and> reroute (advance arriving 36000) (0.15 ## 0.05 ## sconst 0.5) = Some (Inr (f2, g2))
        \<and> flight_to f2 = iata JFK
        \<and> heading f2 = bearingDegrees LAX JFK
        \<and> bearingDegrees \<lparr>lat = lat f2, lon = lon f2\<rparr> JFK = 0
        \<and> heading f2 \<noteq> 0)"
proof (intro conjI allI impI)
  fix f now g f' g'
  assume a: "updatedAt f < now \<and> near_destination (advance f now)
        \<and> tick f now g = Some (Inr (f', g'))"
  then have t: "tick f now g = Some (Inr (f', g'))" by simp
  from t show "\<exists>src dst g1.
         pickDifferentAirports g = Some (Inr (src, dst, g1))
         \<and> reroute (advance f now) g = Some (Inr
              ((advance f now)\<lparr>flight_from := iata src, flight_to := iata dst,
                                heading := bearingDegrees src dst\<rparr>, g1))
         \<and> (f', g') = wander
              ((advance f now)\<lparr>flight_from := iata src, flight_to := iata dst,
                                heading := bearingDegrees src dst\<rparr>) g1"
  proof (cases rule: tick_cases)
    case same
    with a show ?thesis by simp
  next
    case cruise
    with a show ?thesis by simp
  next
    case (arrive f2 g2)
    from reroute_result [OF arrive(3)] arrive(3,4) show ?thesis by auto
  qed
next
  let ?f2 = "(advance arriving 36000)
      \<lparr>flight_from := ''LAX'', flight_to := ''JFK'', heading := bearingDegrees LAX JFK\<rparr>"
  have u: "updatedAt arriving < 36000" by (simp add: arriving_def northbound_def)
  obtain L :: real where L: "0 < L" "L < 0.13" "L = 8.8896 / 6371 * 180 / pi"
    using step_degrees by blast
  have pos: "lat ?f2 = 40.4413 + L" "lon ?f2 = - 73.7781"
    unfolding advance_arriving L(3) by (simp_all add: arriving_def northbound_def)
  have "bearingDegrees \<lparr>lat = lat ?f2, lon = lon ?f2\<rparr> JFK = 0"
    unfolding pos using L(1,2) by (intro bearing_due_north) (simp_all add: JFK_simps)
  moreover have "0 < bearingDegrees LAX JFK"
    using bearing_eastward [of LAX JFK] by (simp add: LAX_simps JFK_simps)
  ultimately show "\<exists>f2 g2.
        updatedAt arriving < 36000 \<and> near_destination (advance arriving 36000)
        \<and> reroute (advance arriving 36000) (0.15 ## 0.05 ## sconst 0.5) = Some (Inr (f2, g2))
        \<and> flight_to f2 = iata JFK
        \<and> heading f2 = bearingDegrees LAX JFK
        \<and> bearingDegrees \<lparr>lat = lat f2, lon = lon f2\<rparr> JFK = 0
        \<and> heading f2 \<noteq> 0"
    using u arriving_near reroute_arriving
    by (intro exI [of _ ?f2] exI [of _ "sconst 0.5"]) (simp add: JFK_simps)
qed

text \<open>The first part of C10 at the flight \<open>arriving\<close>.\<close>

theorem reroute_heading_between_airports_witness:
  "updatedAt arriving < 36000 \<and> near_destination (advance arriving 36000)
   \<and> tick arriving 36000 (0.15 ## 0.05 ## sconst 0.5)
       = Some (Inr ((advance arriving 36000)
            \<lparr>flight_from := ''LAX'', flight_to := ''JFK'', heading := bearingDegrees LAX JFK\<rparr>,
          sconst 0.5))
   \<and> (\<exists>src dst g1.
         pickDifferentAirports (0.15 ## 0.05 ## sconst 0.5) = Some (Inr (src, dst, g1))
         \<and> reroute (advance arriving 36000) (0.15 ## 0.05 ## sconst 0.5) = Some (Inr
              ((advance arriving 36000)\<lparr>flight_from := iata src, flight_to := iata dst,
                                heading := bearingDegrees src dst\<rparr>, g1)))"
proof -
  have u: "updatedAt arriving < 36000" by (simp add: arriving_def northbound_def)
  from reroute_heading_between_airports u arriving_near tick_arriving
  show ?thesis by blast
qed

end
